theory Spec2Isabelle
  imports Main "HOL-Library.Word"
begin

section \<open>JavaScript values\<close>

text \<open>
  A JavaScript string is a sequence of UTF-16 code units. String literals of the source
  are ASCII and are written with \<open>lit\<close>.
\<close>

type_synonym jschar = "16 word"
type_synonym jsstring = "jschar list"

definition lit :: "string \<Rightarrow> jsstring" where
  "lit s = map (\<lambda>c. of_nat (of_char c)) s"

text \<open>
  The values a parsed JSON document can hold, and \<open>undefined\<close> for a property that is
  not there. An object is its list of properties; a property is read at its first entry.
  Numbers are integers here; the program only tests them for being zero.
\<close>

datatype jsval =
    JUndefined
  | JNull
  | JBool bool
  | JNum int
  | JStr jsstring
  | JArr "jsval list"
  | JObj "(jsstring \<times> jsval) list"

datatype error = TypeError

text \<open>JavaScript's ToBoolean: the operand test of \<open>||\<close>, \<open>!\<close> and \<open>if\<close>.\<close>

fun truthy :: "jsval \<Rightarrow> bool" where
  "truthy JUndefined = False"
| "truthy JNull = False"
| "truthy (JBool b) = b"
| "truthy (JNum n) = (n \<noteq> 0)"
| "truthy (JStr s) = (s \<noteq> [])"
| "truthy (JArr xs) = True"
| "truthy (JObj kvs) = True"

text \<open>
  Reading a property: \<open>null\<close> and \<open>undefined\<close> raise a TypeError, an object gives the
  property's value or \<open>undefined\<close>, and any other value has none of the properties the
  program reads from a project record.
\<close>

fun getProp :: "jsval \<Rightarrow> jsstring \<Rightarrow> error + jsval" where
  "getProp JUndefined k = Inl TypeError"
| "getProp JNull k = Inl TypeError"
| "getProp (JObj kvs) k = Inr (case map_of kvs k of None \<Rightarrow> JUndefined | Some v \<Rightarrow> v)"
| "getProp v k = Inr JUndefined"

text \<open>The operator \<open>a || b\<close> on values.\<close>

definition js_or :: "jsval \<Rightarrow> jsval \<Rightarrow> jsval" where
  "js_or a b = (if truthy a then a else b)"

section \<open>Constants and configuration\<close>

definition PLACEHOLDERS_cardImage :: jsstring where
  "PLACEHOLDERS_cardImage = lit ''/images/card_placeholder_bg.webp''"

definition PLACEHOLDERS_spotlightImage :: jsstring where
  "PLACEHOLDERS_spotlightImage = lit ''/images/spotlight_placeholder_bg.webp''"

definition MESSAGE_LIMIT :: nat where
  "MESSAGE_LIMIT = 300"

section \<open>The page: elements, timers, listeners and the application state\<close>

text \<open>
  An element is a reference; the scroll state of every element is held in \<open>elems\<close>:
  its two scroll offsets, in whole pixels, and how far it scrolls on each axis
  (\<open>scrollWidth - clientWidth\<close> and \<open>scrollHeight - clientHeight\<close>). The element lays its
  content out from left to right and from top to bottom and scrolls at once.
  \<open>timers\<close> is the host's table of running interval timers: the handle and the values
  captured by the callback (container and direction). \<open>lastTimer\<close> is the last handle
  the host has given out; handles are positive integers. \<open>listeners\<close> is the list of
  registered event listeners, \<open>scrollController\<close> is \<open>appState.scrollController\<close>
  (\<open>None\<close> for \<open>null\<close>).
\<close>

type_synonym elem = nat

record container =
  scrollLeft :: int
  scrollTop :: int
  maxScrollLeft :: int
  maxScrollTop :: int

type_synonym closure = "elem option \<times> int"

datatype target = Window | Element elem

datatype handler = HStart elem int | HStop

record world =
  viewportWidth :: int
  elems :: "elem \<Rightarrow> container"
  timers :: "(nat \<times> closure) list"
  lastTimer :: nat
  listeners :: "(target \<times> string \<times> handler) list"
  scrollController :: "nat option"

definition initial :: "int \<Rightarrow> (elem \<Rightarrow> container) \<Rightarrow> nat \<Rightarrow> world" where
  "initial w es n =
     \<lparr>viewportWidth = w, elems = es, timers = [], lastTimer = n, listeners = [],
      scrollController = None\<rparr>"

subsection \<open>Host operations\<close>

definition matchMedia_min_width :: "int \<Rightarrow> world \<Rightarrow> bool" where
  "matchMedia_min_width px s = (px \<le> viewportWidth s)"

definition setInterval :: "closure \<Rightarrow> world \<Rightarrow> nat \<times> world" where
  "setInterval cb s =
     (let h = Suc (lastTimer s)
      in (h, s\<lparr>timers := timers s @ [(h, cb)], lastTimer := h\<rparr>))"

definition clearInterval :: "nat \<Rightarrow> world \<Rightarrow> world" where
  "clearInterval h s = s\<lparr>timers := filter (\<lambda>(k, cb). k \<noteq> h) (timers s)\<rparr>"

text \<open>
  \<open>addEventListener\<close> ignores a listener that is already registered for the same
  target and type with the same function. \<open>stopContinuousScroll\<close> is one function;
  each arrow function that starts a scroll is a new one.
\<close>

definition addEventListener :: "target \<Rightarrow> string \<Rightarrow> handler \<Rightarrow> world \<Rightarrow> world" where
  "addEventListener t n h s =
     (if h = HStop \<and> (t, n, h) \<in> set (listeners s) then s
      else s\<lparr>listeners := listeners s @ [(t, n, h)]\<rparr>)"

subsection \<open>Numbers\<close>

text \<open>
  A Number is an IEEE 754 double. The numbers of the scroll controller hold whole values,
  so a finite one is the integer it holds; \<open>NonFinite\<close> is an infinity. An arithmetic
  operation gives the double nearest to the exact result, a tie going to the even
  significand of 53 bits, and an infinity from \<open>2 ^ 1024\<close> on.
\<close>

datatype number = Fin int | NonFinite

fun bitLength :: "nat \<Rightarrow> nat" where
  "bitLength n = (if n = 0 then 0 else Suc (bitLength (n div 2)))"

definition roundDouble :: "int \<Rightarrow> int" where
  "roundDouble x =
     (let a = nat \<bar>x\<bar>;
          n = bitLength a
      in if n \<le> 53 then x
         else
           let q = 2 ^ (n - 53);
               lo = (a div q) * q;
               r = a mod q;
               m = (if 2 * r > q \<or> (2 * r = q \<and> odd (a div q)) then lo + q else lo)
           in sgn x * int m)"

definition toNumber :: "int \<Rightarrow> number" where
  "toNumber x = (let r = roundDouble x in if 2 ^ 1024 \<le> \<bar>r\<bar> then NonFinite else Fin r)"

text \<open>Unary minus, and the sum of a finite number and a number.\<close>

definition numNeg :: "number \<Rightarrow> number" where
  "numNeg v = (case v of Fin a \<Rightarrow> Fin (- a) | NonFinite \<Rightarrow> NonFinite)"

definition numPlus :: "int \<Rightarrow> number \<Rightarrow> number" where
  "numPlus x v = (case v of Fin a \<Rightarrow> toNumber (x + a) | NonFinite \<Rightarrow> NonFinite)"

subsection \<open>The scroll offsets of an element\<close>

text \<open>
  Setting \<open>scrollLeft\<close> or \<open>scrollTop\<close> of an element scrolls it to the position given,
  no further than its scrollable range; a value that is not finite counts as 0.
\<close>

definition clampScroll :: "int \<Rightarrow> number \<Rightarrow> int" where
  "clampScroll hi v = (case v of Fin a \<Rightarrow> max 0 (min hi a) | NonFinite \<Rightarrow> 0)"

definition setScrollLeft :: "number \<Rightarrow> container \<Rightarrow> container" where
  "setScrollLeft v c = c\<lparr>scrollLeft := clampScroll (maxScrollLeft c) v\<rparr>"

definition setScrollTop :: "number \<Rightarrow> container \<Rightarrow> container" where
  "setScrollTop v c = c\<lparr>scrollTop := clampScroll (maxScrollTop c) v\<rparr>"

text \<open>
  The assignment \<open>container.scrollLeft += v\<close>: the offset is read, the sum is a Number,
  and the sum is set. Reading or writing a property of \<open>null\<close> raises a TypeError.
\<close>

fun addScrollLeft :: "elem option \<Rightarrow> number \<Rightarrow> world \<Rightarrow> error + world" where
  "addScrollLeft None v s = Inl TypeError"
| "addScrollLeft (Some c) v s =
     Inr (s\<lparr>elems := (elems s)
            (c := setScrollLeft (numPlus (scrollLeft (elems s c)) v) (elems s c))\<rparr>)"

fun addScrollTop :: "elem option \<Rightarrow> number \<Rightarrow> world \<Rightarrow> error + world" where
  "addScrollTop None v s = Inl TypeError"
| "addScrollTop (Some c) v s =
     Inr (s\<lparr>elems := (elems s)
            (c := setScrollTop (numPlus (scrollTop (elems s c)) v) (elems s c))\<rparr>)"

section \<open>Responsive scrolling\<close>

definition getAxis :: "world \<Rightarrow> string" where
  "getAxis s = (if matchMedia_min_width 1024 s then ''y'' else ''x'')"

definition scrollByAxis :: "elem option \<Rightarrow> int \<Rightarrow> world \<Rightarrow> error + world" where
  "scrollByAxis container delta s =
     (if container = None then Inr s
      else
        let axis = getAxis s;
            scrollAmount = toNumber (\<bar>delta\<bar> * 20)
        in if axis = ''x''
           then addScrollLeft container
                  (if delta > 0 then scrollAmount else numNeg scrollAmount) s
           else addScrollTop container
                  (if delta > 0 then scrollAmount else numNeg scrollAmount) s)"

definition startContinuousScroll :: "elem option \<Rightarrow> int \<Rightarrow> world \<Rightarrow> world" where
  "startContinuousScroll container direction s =
     (let s1 = (case scrollController s of
                  None \<Rightarrow> s
                | Some h \<Rightarrow> if h \<noteq> 0 then clearInterval h s else s);
          (h', s2) = setInterval (container, direction) s1
      in s2\<lparr>scrollController := Some h'\<rparr>)"

definition stopContinuousScroll :: "world \<Rightarrow> world" where
  "stopContinuousScroll s =
     (case scrollController s of
        None \<Rightarrow> s
      | Some h \<Rightarrow> if h \<noteq> 0 then (clearInterval h s)\<lparr>scrollController := None\<rparr> else s)"

definition wireArrow :: "elem \<Rightarrow> elem \<Rightarrow> int \<Rightarrow> world \<Rightarrow> world" where
  "wireArrow arrow projectsList d s =
     fold (\<lambda>(n, h). addEventListener (Element arrow) n h)
       [(''pointerdown'', HStart projectsList d),
        (''mousedown'', HStart projectsList d),
        (''pointerup'', HStop),
        (''mouseup'', HStop),
        (''mouseleave'', HStop),
        (''pointercancel'', HStop),
        (''blur'', HStop)] s"

text \<open>
  The four arguments are the results of the four \<open>querySelector\<close> calls (\<open>None\<close> for
  \<open>null\<close>); the two arrows are looked up only when the arrow container is there.
\<close>

definition setupArrowScrolling ::
  "elem option \<Rightarrow> elem option \<Rightarrow> elem option \<Rightarrow> elem option \<Rightarrow> world \<Rightarrow> world" where
  "setupArrowScrolling arrowContainer projectsList leftArrow rightArrow s =
     (case arrowContainer of
        None \<Rightarrow> s
      | Some ac \<Rightarrow>
         (case projectsList of
            None \<Rightarrow> s
          | Some pl \<Rightarrow>
              let s1 = (case leftArrow of None \<Rightarrow> s | Some la \<Rightarrow> wireArrow la pl (- 1) s);
                  s2 = (case rightArrow of None \<Rightarrow> s1 | Some ra \<Rightarrow> wireArrow ra pl 1 s1);
                  s3 = addEventListener Window ''blur'' HStop s2
              in addEventListener Window ''resize'' HStop s3))"

subsection \<open>The event loop\<close>

text \<open>
  One turn of the event loop runs one of: a listener's handler, for an event sent to a
  target; the callback of a running interval timer; a direct call of one of the two
  operations. A resize changes the viewport width and sends \<open>resize\<close> to the window.
  An exception in a timer callback ends that callback only.
\<close>

definition runHandler :: "handler \<Rightarrow> world \<Rightarrow> world" where
  "runHandler h s =
     (case h of
        HStart pl d \<Rightarrow> startContinuousScroll (Some pl) d s
      | HStop \<Rightarrow> stopContinuousScroll s)"

definition dispatchEvent :: "target \<Rightarrow> string \<Rightarrow> world \<Rightarrow> world" where
  "dispatchEvent t n s =
     fold runHandler
       (map (\<lambda>(t', n', h). h) (filter (\<lambda>(t', n', h). t' = t \<and> n' = n) (listeners s))) s"

definition fireTimer :: "nat \<Rightarrow> world \<Rightarrow> world" where
  "fireTimer h s =
     (case map_of (timers s) h of
        None \<Rightarrow> s
      | Some (c, d) \<Rightarrow> (case scrollByAxis c d s of Inl e \<Rightarrow> s | Inr s' \<Rightarrow> s'))"

datatype event =
    CallStart "elem option" int
  | CallStop
  | Dispatch target string
  | Fire nat
  | Resize int

fun step :: "event \<Rightarrow> world \<Rightarrow> world" where
  "step (CallStart c d) s = startContinuousScroll c d s"
| "step CallStop s = stopContinuousScroll s"
| "step (Dispatch t n) s = dispatchEvent t n s"
| "step (Fire h) s = fireTimer h s"
| "step (Resize w) s = dispatchEvent Window ''resize'' (s\<lparr>viewportWidth := w\<rparr>)"

definition run :: "event list \<Rightarrow> world \<Rightarrow> world" where
  "run evs s = fold step evs s"

text \<open>N successive calls of the step function, stopping at the first exception.\<close>

fun ticks :: "nat \<Rightarrow> elem option \<Rightarrow> int \<Rightarrow> world \<Rightarrow> error + world" where
  "ticks 0 c d s = Inr s"
| "ticks (Suc n) c d s =
     (case scrollByAxis c d s of Inl e \<Rightarrow> Inl e | Inr s' \<Rightarrow> ticks n c d s')"

section \<open>Data normalization\<close>

text \<open>The normalized project: the object literal that \<open>normalizeProject\<close> returns.\<close>

record project =
  p_id :: jsval
  p_name :: jsval
  p_short :: jsval
  p_long :: jsval
  p_url :: jsval
  p_cardImage :: jsval
  p_spotlightImage :: jsval

definition bindE :: "error + 'a \<Rightarrow> ('a \<Rightarrow> error + 'b) \<Rightarrow> error + 'b" where
  "bindE r f = (case r of Inl e \<Rightarrow> Inl e | Inr v \<Rightarrow> f v)"

text \<open>
  The parameter default \<open>project = {}\<close> replaces \<open>undefined\<close> only. The seven
  properties are read in the order of the object literal.
\<close>

definition normalizeProject :: "jsval \<Rightarrow> error + project" where
  "normalizeProject arg =
     (let project = (if arg = JUndefined then JObj [] else arg)
      in bindE (getProp project (lit ''project_id'')) (\<lambda>v1.
         bindE (getProp project (lit ''project_name'')) (\<lambda>v2.
         bindE (getProp project (lit ''short_description'')) (\<lambda>v3.
         bindE (getProp project (lit ''long_description'')) (\<lambda>v4.
         bindE (getProp project (lit ''url'')) (\<lambda>v5.
         bindE (getProp project (lit ''card_image'')) (\<lambda>v6.
         bindE (getProp project (lit ''spotlight_image'')) (\<lambda>v7.
           Inr \<lparr>p_id = js_or v1 (JStr (lit ''unknown'')),
                p_name = js_or v2 (JStr (lit ''Untitled Project'')),
                p_short = js_or v3 (JStr (lit ''No description available.'')),
                p_long = js_or v4 (JStr (lit ''Detailed information coming soon.'')),
                p_url = js_or v5 (JStr (lit ''#'')),
                p_cardImage = js_or v6 (JStr PLACEHOLDERS_cardImage),
                p_spotlightImage = js_or v7 (JStr PLACEHOLDERS_spotlightImage)\<rparr>))))))))"

text \<open>
  The seven fields of the normalized record, each with the property of the raw record it
  is taken from and its default.
\<close>

definition project_fields :: "(jsstring \<times> (project \<Rightarrow> jsval) \<times> jsval) list" where
  "project_fields =
     [(lit ''project_id'', p_id, JStr (lit ''unknown'')),
      (lit ''project_name'', p_name, JStr (lit ''Untitled Project'')),
      (lit ''short_description'', p_short, JStr (lit ''No description available.'')),
      (lit ''long_description'', p_long, JStr (lit ''Detailed information coming soon.'')),
      (lit ''url'', p_url, JStr (lit ''#'')),
      (lit ''card_image'', p_cardImage, JStr (lit ''/images/card_placeholder_bg.webp'')),
      (lit ''spotlight_image'', p_spotlightImage,
         JStr (lit ''/images/spotlight_placeholder_bg.webp''))]"

section \<open>Form validation\<close>

record validation =
  isValid :: bool
  message :: jsstring

text \<open>
  \<open>String.prototype.trim\<close> removes white space and line terminators at both ends:
  TAB, LF, VT, FF, CR, SP, NBSP, U+1680, U+2000 to U+200A, U+2028, U+2029, U+202F,
  U+205F, U+3000 and U+FEFF.
\<close>

definition isWhiteSpace :: "jschar \<Rightarrow> bool" where
  "isWhiteSpace c =
     (c = 0x09 \<or> c = 0x0A \<or> c = 0x0B \<or> c = 0x0C \<or> c = 0x0D \<or> c = 0x20 \<or> c = 0xA0 \<or>
      c = 0x1680 \<or> (0x2000 \<le> c \<and> c \<le> 0x200A) \<or> c = 0x2028 \<or> c = 0x2029 \<or>
      c = 0x202F \<or> c = 0x205F \<or> c = 0x3000 \<or> c = 0xFEFF)"

definition trim :: "jsstring \<Rightarrow> jsstring" where
  "trim s = rev (dropWhile isWhiteSpace (rev (dropWhile isWhiteSpace s)))"

text \<open>
  \<open>REGEX.illegalChars\<close> is \<open>/[^a-zA-Z0-9@._-]/\<close>: one code unit that is not a letter
  a to z or A to Z, a digit, \<open>@\<close>, \<open>.\<close>, \<open>_\<close> or \<open>-\<close>. The expression has no flag, so
  \<open>test\<close> keeps no position between calls.
\<close>

definition inClass :: "jschar \<Rightarrow> bool" where
  "inClass c =
     ((0x61 \<le> c \<and> c \<le> 0x7A) \<or> (0x41 \<le> c \<and> c \<le> 0x5A) \<or> (0x30 \<le> c \<and> c \<le> 0x39) \<or>
      c = 0x40 \<or> c = 0x2E \<or> c = 0x5F \<or> c = 0x2D)"

definition REGEX_illegalChars_test :: "jsstring \<Rightarrow> bool" where
  "REGEX_illegalChars_test v = list_ex (\<lambda>c. \<not> inClass c) v"

fun decimal :: "nat \<Rightarrow> jsstring" where
  "decimal n =
     (if n < 10 then [of_nat (48 + n)] else decimal (n div 10) @ [of_nat (48 + n mod 10)])"

text \<open>The parameter default \<open>value = ''\<close> replaces \<open>undefined\<close> (\<open>None\<close>).\<close>

definition validateMessage :: "jsstring option \<Rightarrow> validation" where
  "validateMessage arg =
     (let v = (case arg of None \<Rightarrow> [] | Some x \<Rightarrow> x)
      in if trim v = [] then
           \<lparr>isValid = False, message = lit ''Message is required.''\<rparr>
         else if REGEX_illegalChars_test v then
           \<lparr>isValid = False,
            message = lit ''Message contains invalid characters. Only letters, numbers, @, ., _, and - are allowed.''\<rparr>
         else if length v > MESSAGE_LIMIT then
           \<lparr>isValid = False,
            message = lit ''Message must be '' @ decimal MESSAGE_LIMIT @ lit '' characters or less.''\<rparr>
         else \<lparr>isValid = True, message = []\<rparr>)"

section \<open>Auxiliary notions for the properties\<close>

text \<open>
  A page on which no element has been scrolled; every element scrolls 2000 pixels each
  way.
\<close>

definition unscrolled :: "elem \<Rightarrow> container" where
  "unscrolled c = \<lparr>scrollLeft = 0, scrollTop = 0, maxScrollLeft = 2000, maxScrollTop = 2000\<rparr>"

text \<open>A page whose elements scroll \<open>2 ^ 61\<close> pixels and stand at \<open>2 ^ 60\<close>.\<close>

definition farScrolled :: "elem \<Rightarrow> container" where
  "farScrolled c =
     \<lparr>scrollLeft = 2 ^ 60, scrollTop = 0, maxScrollLeft = 2 ^ 61, maxScrollTop = 2000\<rparr>"

text \<open>
  The session slot and the timer table agree: no timer runs when the slot is empty, and
  otherwise the one running timer is the one whose handle the slot holds.
\<close>

definition session_inv :: "world \<Rightarrow> bool" where
  "session_inv s =
     (case scrollController s of
        None \<Rightarrow> timers s = []
      | Some h \<Rightarrow> h \<noteq> 0 \<and> h \<le> lastTimer s \<and> map fst (timers s) = [h])"

text \<open>
  The events that end a hold: pointer-up, mouse-up, mouse-leave, pointer-cancel and blur on
  an arrow that is on the page, blur of the window, and a resize of the window.
\<close>

definition arrowStopEvents :: "elem option \<Rightarrow> event list" where
  "arrowStopEvents a =
     (case a of
        None \<Rightarrow> []
      | Some x \<Rightarrow>
          map (Dispatch (Element x))
            [''pointerup'', ''mouseup'', ''mouseleave'', ''pointercancel'', ''blur''])"

definition stopTriggers :: "elem option \<Rightarrow> elem option \<Rightarrow> int \<Rightarrow> event list" where
  "stopTriggers la ra w =
     arrowStopEvents la @ arrowStopEvents ra @ [Dispatch Window ''blur'', Resize w]"

text \<open>The listeners that \<open>wireArrow\<close> registers on an arrow, as a set.\<close>

definition arrowListeners :: "elem option \<Rightarrow> elem \<Rightarrow> int \<Rightarrow> (target \<times> string \<times> handler) set" where
  "arrowListeners a pl d =
     (case a of
        None \<Rightarrow> {}
      | Some x \<Rightarrow>
          {(Element x, ''pointerdown'', HStart pl d),
           (Element x, ''mousedown'', HStart pl d),
           (Element x, ''pointerup'', HStop),
           (Element x, ''mouseup'', HStop),
           (Element x, ''mouseleave'', HStop),
           (Element x, ''pointercancel'', HStop),
           (Element x, ''blur'', HStop)})"

text \<open>The value read from a property of an object: \<open>undefined\<close> when it is not there.\<close>

definition propOf :: "(jsstring \<times> jsval) list \<Rightarrow> jsstring \<Rightarrow> jsval" where
  "propOf kvs k = (case map_of kvs k of None \<Rightarrow> JUndefined | Some v \<Rightarrow> v)"

section \<open>Properties of the scroll controller\<close>

text \<open>
  C2. The axis is vertical (\<open>y\<close>) exactly when the viewport is at least 1024 pixels wide
  and horizontal (\<open>x\<close>) otherwise; at exactly 1024 it is vertical. The result is a
  value computed from the viewport width alone: two pages of the same width give the
  same axis, and the function returns no changed page.
\<close>

theorem getAxis_threshold:
  "(getAxis s = ''y'' \<longleftrightarrow> 1024 \<le> viewportWidth s) \<and>
   (getAxis s = ''x'' \<longleftrightarrow> viewportWidth s < 1024) \<and>
   (viewportWidth s = 1024 \<longrightarrow> getAxis s = ''y'') \<and>
   (viewportWidth s = viewportWidth s' \<longrightarrow> getAxis s = getAxis s')"
  by (simp add: getAxis_def matchMedia_min_width_def)

theorem getAxis_threshold_witness:
  "getAxis (initial 1024 unscrolled 0) = ''y'' \<and>
   getAxis (startContinuousScroll (Some 3) 1 (initial 1024 unscrolled 5)) = ''y''"
  using getAxis_threshold [of "initial 1024 unscrolled 0"
      "startContinuousScroll (Some 3) 1 (initial 1024 unscrolled 5)"]
  by (simp add: initial_def startContinuousScroll_def setInterval_def getAxis_def
      matchMedia_min_width_def)

text \<open>
  C7. Called with no container, \<open>scrollByAxis\<close> raises no exception and returns the
  page as it was: scroll offsets, timers and the session slot are unchanged.
\<close>

theorem scrollByAxis_null_container:
  "scrollByAxis None delta s = Inr s"
  by (simp add: scrollByAxis_def)

subsection \<open>Numbers that are exact\<close>

lemma bitLength_le: "a < 2 ^ k \<Longrightarrow> bitLength a \<le> k"
proof (induction k arbitrary: a)
  case 0
  then have "a = 0" by simp
  then show ?case by simp
next
  case (Suc k)
  show ?case
  proof (cases "a = 0")
    case True
    then show ?thesis by simp
  next
    case False
    have "a div 2 < 2 ^ k" using Suc.prems by simp
    then have "bitLength (a div 2) \<le> k" by (rule Suc.IH)
    with False show ?thesis by (subst bitLength.simps) simp
  qed
qed

lemma roundDouble_exact: "\<bar>x\<bar> < 2 ^ 53 \<Longrightarrow> roundDouble x = x"
proof -
  assume "\<bar>x\<bar> < 2 ^ 53"
  then have "nat \<bar>x\<bar> < 2 ^ 53" by simp
  then have "bitLength (nat \<bar>x\<bar>) \<le> 53" by (rule bitLength_le)
  then show ?thesis by (simp add: roundDouble_def Let_def)
qed

lemma toNumber_exact: "\<bar>x\<bar> < 2 ^ 53 \<Longrightarrow> toNumber x = Fin x"
proof -
  assume b: "\<bar>x\<bar> < 2 ^ 53"
  have "(2::int) ^ 53 < 2 ^ 1024" by simp
  with b have "\<not> 2 ^ 1024 \<le> \<bar>x\<bar>" by linarith
  with b show ?thesis by (simp add: toNumber_def roundDouble_exact Let_def)
qed

lemma getAxis_elems [simp]: "getAxis (s\<lparr>elems := es\<rparr>) = getAxis s"
  by (simp add: getAxis_def matchMedia_min_width_def)

lemma step_right:
  assumes "getAxis s = ''x''"
    and "0 \<le> scrollLeft (elems s c)"
    and "scrollLeft (elems s c) \<le> maxScrollLeft (elems s c)"
    and "maxScrollLeft (elems s c) < 2 ^ 52"
  shows "scrollByAxis (Some c) 1 s =
     Inr (s\<lparr>elems := (elems s)(c := (elems s c)
            \<lparr>scrollLeft := min (maxScrollLeft (elems s c)) (scrollLeft (elems s c) + 20)\<rparr>)\<rparr>)"
proof -
  have a: "toNumber 20 = Fin 20" by (rule toNumber_exact) simp
  have "\<bar>scrollLeft (elems s c) + 20\<bar> < 2 ^ 53" using assms by simp
  then have b: "toNumber (scrollLeft (elems s c) + 20) = Fin (scrollLeft (elems s c) + 20)"
    by (rule toNumber_exact)
  have c: "max 0 (min (maxScrollLeft (elems s c)) (scrollLeft (elems s c) + 20)) =
      min (maxScrollLeft (elems s c)) (scrollLeft (elems s c) + 20)"
    using assms by simp
  show ?thesis
    using assms(1)
    by (simp add: scrollByAxis_def Let_def a numPlus_def b setScrollLeft_def clampScroll_def c)
qed

lemma step_left:
  assumes "getAxis s = ''x''"
    and "0 \<le> scrollLeft (elems s c)"
    and "scrollLeft (elems s c) \<le> maxScrollLeft (elems s c)"
    and "maxScrollLeft (elems s c) < 2 ^ 52"
  shows "scrollByAxis (Some c) (- 1) s =
     Inr (s\<lparr>elems := (elems s)(c := (elems s c)
            \<lparr>scrollLeft := max 0 (scrollLeft (elems s c) - 20)\<rparr>)\<rparr>)"
proof -
  have a: "toNumber 20 = Fin 20" by (rule toNumber_exact) simp
  have "\<bar>scrollLeft (elems s c) - 20\<bar> < 2 ^ 53" using assms by simp
  then have b: "toNumber (scrollLeft (elems s c) - 20) = Fin (scrollLeft (elems s c) - 20)"
    by (rule toNumber_exact)
  have c: "max 0 (min (maxScrollLeft (elems s c)) (scrollLeft (elems s c) - 20)) =
      max 0 (scrollLeft (elems s c) - 20)"
    using assms by simp
  show ?thesis
    using assms(1)
    by (simp add: scrollByAxis_def Let_def a numPlus_def numNeg_def b setScrollLeft_def
        clampScroll_def c)
qed

lemma ticks_right:
  assumes "getAxis s = ''x''"
    and "0 \<le> scrollLeft (elems s c)"
    and "scrollLeft (elems s c) \<le> maxScrollLeft (elems s c)"
    and "maxScrollLeft (elems s c) < 2 ^ 52"
  shows "ticks N (Some c) 1 s =
     Inr (s\<lparr>elems := (elems s)(c := (elems s c)
            \<lparr>scrollLeft :=
               min (maxScrollLeft (elems s c)) (scrollLeft (elems s c) + int N * 20)\<rparr>)\<rparr>)"
  using assms
proof (induction N arbitrary: s)
  case 0
  then show ?case by simp
next
  case (Suc N)
  define x where "x = scrollLeft (elems s c)"
  define m where "m = maxScrollLeft (elems s c)"
  define s1 where "s1 = s\<lparr>elems := (elems s)(c := (elems s c)\<lparr>scrollLeft := min m (x + 20)\<rparr>)\<rparr>"
  have st: "scrollByAxis (Some c) 1 s = Inr s1"
    unfolding s1_def x_def m_def using Suc.prems by (rule step_right)
  have x: "0 \<le> x" "x \<le> m" "m < 2 ^ 52" using Suc.prems by (simp_all add: x_def m_def)
  have p1: "getAxis s1 = ''x''" using Suc.prems(1) by (simp add: s1_def)
  have p2: "0 \<le> scrollLeft (elems s1 c)" using x by (simp add: s1_def)
  have p3: "scrollLeft (elems s1 c) \<le> maxScrollLeft (elems s1 c)"
    by (simp add: s1_def m_def)
  have p4: "maxScrollLeft (elems s1 c) < 2 ^ 52" using x by (simp add: s1_def m_def)
  have ar: "min m (min m (x + 20) + int N * 20) = min m (x + int (Suc N) * 20)"
    by (simp add: min_def)
  have "ticks (Suc N) (Some c) 1 s = ticks N (Some c) 1 s1"
    using st by simp
  also have "\<dots> = Inr (s1\<lparr>elems := (elems s1)(c := (elems s1 c)
            \<lparr>scrollLeft :=
               min (maxScrollLeft (elems s1 c)) (scrollLeft (elems s1 c) + int N * 20)\<rparr>)\<rparr>)"
    by (rule Suc.IH [OF p1 p2 p3 p4])
  also have "\<dots> = Inr (s\<lparr>elems := (elems s)(c := (elems s c)
            \<lparr>scrollLeft := min m (x + int (Suc N) * 20)\<rparr>)\<rparr>)"
    unfolding ar [symmetric] by (simp add: s1_def m_def)
  finally show ?case unfolding x_def m_def .
qed

lemma ticks_left:
  assumes "getAxis s = ''x''"
    and "0 \<le> scrollLeft (elems s c)"
    and "scrollLeft (elems s c) \<le> maxScrollLeft (elems s c)"
    and "maxScrollLeft (elems s c) < 2 ^ 52"
  shows "ticks N (Some c) (- 1) s =
     Inr (s\<lparr>elems := (elems s)(c := (elems s c)
            \<lparr>scrollLeft := max 0 (scrollLeft (elems s c) - int N * 20)\<rparr>)\<rparr>)"
  using assms
proof (induction N arbitrary: s)
  case 0
  then show ?case by simp
next
  case (Suc N)
  define x where "x = scrollLeft (elems s c)"
  define m where "m = maxScrollLeft (elems s c)"
  define s1 where "s1 = s\<lparr>elems := (elems s)(c := (elems s c)\<lparr>scrollLeft := max 0 (x - 20)\<rparr>)\<rparr>"
  have st: "scrollByAxis (Some c) (- 1) s = Inr s1"
    unfolding s1_def x_def using Suc.prems by (rule step_left)
  have x: "0 \<le> x" "x \<le> m" "m < 2 ^ 52" using Suc.prems by (simp_all add: x_def m_def)
  have p1: "getAxis s1 = ''x''" using Suc.prems(1) by (simp add: s1_def)
  have p2: "0 \<le> scrollLeft (elems s1 c)" by (simp add: s1_def)
  have p3: "scrollLeft (elems s1 c) \<le> maxScrollLeft (elems s1 c)"
    using x by (simp add: s1_def m_def [symmetric])
  have p4: "maxScrollLeft (elems s1 c) < 2 ^ 52" using x by (simp add: s1_def m_def)
  have ar: "max 0 (max 0 (x - 20) - int N * 20) = max 0 (x - int (Suc N) * 20)"
    by (simp add: max_def)
  have "ticks (Suc N) (Some c) (- 1) s = ticks N (Some c) (- 1) s1"
    using st by simp
  also have "\<dots> = Inr (s1\<lparr>elems := (elems s1)(c := (elems s1 c)
            \<lparr>scrollLeft := max 0 (scrollLeft (elems s1 c) - int N * 20)\<rparr>)\<rparr>)"
    by (rule Suc.IH [OF p1 p2 p3 p4])
  also have "\<dots> = Inr (s\<lparr>elems := (elems s)(c := (elems s c)
            \<lparr>scrollLeft := max 0 (x - int (Suc N) * 20)\<rparr>)\<rparr>)"
    unfolding ar [symmetric] by (simp add: s1_def)
  finally show ?case unfolding x_def .
qed

text \<open>
  C4, as amended. On the horizontal axis, for a container that stands within its
  scrollable range, the range being below \<open>2 ^ 52\<close> pixels: N ticks with direction +1
  move \<open>scrollLeft\<close> up by N times 20, but no further than the end of the range, and N
  ticks with direction -1 move it down by N times 20, but no further than 0. So the
  change is exactly N times 20 whenever the offset so reached is still in the range.
  \<open>scrollTop\<close> is unchanged in both directions.
\<close>

theorem ticks_horizontal_in_range:
  assumes "getAxis s = ''x''"
    and "0 \<le> scrollLeft (elems s c)"
    and "scrollLeft (elems s c) \<le> maxScrollLeft (elems s c)"
    and "maxScrollLeft (elems s c) < 2 ^ 52"
  shows "(\<exists>s'. ticks N (Some c) 1 s = Inr s' \<and>
            scrollLeft (elems s' c) =
              min (maxScrollLeft (elems s c)) (scrollLeft (elems s c) + int N * 20) \<and>
            (scrollLeft (elems s c) + int N * 20 \<le> maxScrollLeft (elems s c) \<longrightarrow>
               scrollLeft (elems s' c) = scrollLeft (elems s c) + int N * 20) \<and>
            scrollTop (elems s' c) = scrollTop (elems s c)) \<and>
         (\<exists>s'. ticks N (Some c) (- 1) s = Inr s' \<and>
            scrollLeft (elems s' c) = max 0 (scrollLeft (elems s c) - int N * 20) \<and>
            (0 \<le> scrollLeft (elems s c) - int N * 20 \<longrightarrow>
               scrollLeft (elems s' c) = scrollLeft (elems s c) - int N * 20) \<and>
            scrollTop (elems s' c) = scrollTop (elems s c))"
  by (simp add: ticks_right [OF assms] ticks_left [OF assms])

theorem ticks_horizontal_in_range_witness:
  "getAxis (initial 500 unscrolled 0) = ''x'' \<and>
   0 \<le> scrollLeft (elems (initial 500 unscrolled 0) 7) \<and>
   scrollLeft (elems (initial 500 unscrolled 0) 7)
     \<le> maxScrollLeft (elems (initial 500 unscrolled 0) 7) \<and>
   maxScrollLeft (elems (initial 500 unscrolled 0) 7) < 2 ^ 52 \<and>
   (\<exists>s'. ticks 3 (Some 7) 1 (initial 500 unscrolled 0) = Inr s' \<and>
      scrollLeft (elems s' 7) = 60 \<and> scrollTop (elems s' 7) = 0)"
proof -
  have h1: "getAxis (initial 500 unscrolled 0) = ''x''"
    by (simp add: getAxis_def matchMedia_min_width_def initial_def)
  have h2: "0 \<le> scrollLeft (elems (initial 500 unscrolled 0) 7)"
    by (simp add: initial_def unscrolled_def)
  have h3: "scrollLeft (elems (initial 500 unscrolled 0) 7)
      \<le> maxScrollLeft (elems (initial 500 unscrolled 0) 7)"
    by (simp add: initial_def unscrolled_def)
  have h4: "maxScrollLeft (elems (initial 500 unscrolled 0) 7) < 2 ^ 52"
    by (simp add: initial_def unscrolled_def)
  show ?thesis
    using h1 h2 h3 h4 ticks_horizontal_in_range [OF h1 h2 h3 h4, of 3]
    by (simp add: initial_def unscrolled_def)
qed

lemma bitLength_gt: "2 ^ k \<le> a \<Longrightarrow> k < bitLength a"
proof (induction k arbitrary: a)
  case 0
  then have "a \<noteq> 0" by auto
  then show ?case by (subst bitLength.simps) simp
next
  case (Suc k)
  have "0 < (2::nat) ^ Suc k" by simp
  with Suc.prems have n: "a \<noteq> 0" by linarith
  have "2 ^ k \<le> a div 2" using Suc.prems by simp
  then have "k < bitLength (a div 2)" by (rule Suc.IH)
  with n show ?case by (subst bitLength.simps) simp
qed

lemma bitLength_eq: "2 ^ k \<le> a \<Longrightarrow> a < 2 ^ Suc k \<Longrightarrow> bitLength a = Suc k"
  using bitLength_gt [of k a] bitLength_le [of a "Suc k"] by simp

lemma toNumber_far: "toNumber (2 ^ 60 + 20) = Fin (2 ^ 60)"
proof -
  have c: "bitLength (nat \<bar>2 ^ 60 + 20\<bar>) = Suc 60"
    by (rule bitLength_eq) simp_all
  have "roundDouble (2 ^ 60 + 20) = 2 ^ 60"
    unfolding roundDouble_def Let_def c by simp
  then show ?thesis by (simp add: toNumber_def Let_def)
qed

text \<open>
  C4 as stated fails. At the left end of the range, three ticks with direction -1 leave
  \<open>scrollLeft\<close> at 0, not at -60: the page is as it was. And at \<open>2 ^ 60\<close> a tick with
  direction +1 leaves \<open>scrollLeft\<close> at \<open>2 ^ 60\<close>, the double nearest to the sum.
\<close>

theorem ticks_horizontal_counterexample:
  "getAxis (initial 500 unscrolled 0) = ''x'' \<and>
   scrollLeft (elems (initial 500 unscrolled 0) 7) = 0 \<and>
   ticks 3 (Some 7) (- 1) (initial 500 unscrolled 0) = Inr (initial 500 unscrolled 0) \<and>
   getAxis (initial 500 farScrolled 0) = ''x'' \<and>
   scrollLeft (elems (initial 500 farScrolled 0) 7) = 2 ^ 60 \<and>
   ticks 1 (Some 7) 1 (initial 500 farScrolled 0) = Inr (initial 500 farScrolled 0)"
proof -
  have a: "toNumber 20 = Fin 20" by (rule toNumber_exact) simp
  have b: "toNumber (- 20) = Fin (- 20)" by (rule toNumber_exact) simp
  have f: "toNumber 1152921504606846996 = Fin 1152921504606846976"
    using toNumber_far by simp
  have g1: "getAxis (initial 500 unscrolled 0) = ''x''"
    by (simp add: getAxis_def matchMedia_min_width_def initial_def)
  have g2: "getAxis (initial 500 farScrolled 0) = ''x''"
    by (simp add: getAxis_def matchMedia_min_width_def initial_def)
  have u: "unscrolled(7 := unscrolled 7) = unscrolled" by simp
  have s1: "scrollByAxis (Some 7) (- 1) (initial 500 unscrolled 0) = Inr (initial 500 unscrolled 0)"
    unfolding scrollByAxis_def Let_def g1
    by (simp add: a b numPlus_def numNeg_def setScrollLeft_def clampScroll_def initial_def
        unscrolled_def fun_upd_idem)
  have l: "ticks 3 (Some 7) (- 1) (initial 500 unscrolled 0) = Inr (initial 500 unscrolled 0)"
    by (simp add: numeral_3_eq_3 s1)
  have s2: "scrollByAxis (Some 7) 1 (initial 500 farScrolled 0) = Inr (initial 500 farScrolled 0)"
    unfolding scrollByAxis_def Let_def g2
    by (simp add: a f numPlus_def setScrollLeft_def clampScroll_def initial_def
        farScrolled_def fun_upd_idem)
  have r: "ticks 1 (Some 7) 1 (initial 500 farScrolled 0) = Inr (initial 500 farScrolled 0)"
    by (simp add: s2)
  show ?thesis
    using l r g1 g2 by (simp add: initial_def unscrolled_def farScrolled_def)
qed

text \<open>
  C6. With no session, \<open>stopContinuousScroll\<close> returns the page unchanged. With a
  session, it removes the session's timer and empties the session slot, changing
  nothing else. A second call changes nothing.
\<close>

theorem stop_idempotent:
  "(scrollController s = None \<longrightarrow> stopContinuousScroll s = s) \<and>
   (\<forall>h. scrollController s = Some h \<and> h \<noteq> 0 \<longrightarrow>
      stopContinuousScroll s =
        s\<lparr>timers := filter (\<lambda>(k, cb). k \<noteq> h) (timers s), scrollController := None\<rparr> \<and>
      h \<notin> fst ` set (timers (stopContinuousScroll s))) \<and>
   stopContinuousScroll (stopContinuousScroll s) = stopContinuousScroll s"
  by (auto simp: stopContinuousScroll_def clearInterval_def split: option.splits)

theorem stop_idempotent_witness:
  "scrollController (initial 500 unscrolled 0) = None \<and>
   stopContinuousScroll (initial 500 unscrolled 0) = initial 500 unscrolled 0 \<and>
   scrollController (startContinuousScroll (Some 7) 1 (initial 500 unscrolled 0)) = Some 1 \<and>
   timers (startContinuousScroll (Some 7) 1 (initial 500 unscrolled 0)) = [(1, (Some 7, 1))] \<and>
   timers (stopContinuousScroll (startContinuousScroll (Some 7) 1 (initial 500 unscrolled 0))) = [] \<and>
   scrollController (stopContinuousScroll (startContinuousScroll (Some 7) 1 (initial 500 unscrolled 0))) = None"
  using stop_idempotent [of "initial 500 unscrolled 0"]
    stop_idempotent [of "startContinuousScroll (Some 7) 1 (initial 500 unscrolled 0)"]
  by (simp add: initial_def startContinuousScroll_def setInterval_def)

subsection \<open>Sessions and timers\<close>

lemma session_inv_initial: "session_inv (initial w es n)"
  by (simp add: session_inv_def initial_def)

lemma start_result:
  "session_inv s \<Longrightarrow>
   startContinuousScroll c d s =
     s\<lparr>timers := [(Suc (lastTimer s), (c, d))], lastTimer := Suc (lastTimer s),
       scrollController := Some (Suc (lastTimer s))\<rparr>"
  by (cases "timers s")
     (auto simp: session_inv_def startContinuousScroll_def setInterval_def clearInterval_def
       split: option.splits)

lemma stop_result:
  "session_inv s \<Longrightarrow> stopContinuousScroll s = s\<lparr>timers := [], scrollController := None\<rparr>"
  by (cases "timers s")
     (auto simp: session_inv_def stopContinuousScroll_def clearInterval_def split: option.splits)

lemma session_inv_start: "session_inv s \<Longrightarrow> session_inv (startContinuousScroll c d s)"
  by (simp add: start_result) (simp add: session_inv_def)

lemma session_inv_stop: "session_inv s \<Longrightarrow> session_inv (stopContinuousScroll s)"
  by (simp add: stop_result) (simp add: session_inv_def)

lemma scrollByAxis_elems_only:
  "scrollByAxis c d s = Inr s' \<Longrightarrow> \<exists>es. s' = s\<lparr>elems := es\<rparr>"
proof (cases c)
  case None
  assume "scrollByAxis c d s = Inr s'"
  with None have "s' = s\<lparr>elems := elems s\<rparr>" by (simp add: scrollByAxis_def)
  then show ?thesis by blast
next
  case (Some a)
  assume "scrollByAxis c d s = Inr s'"
  with Some show ?thesis
    by (auto simp: scrollByAxis_def Let_def split: if_splits)
qed

lemma fireTimer_elems_only: "\<exists>es. fireTimer h s = s\<lparr>elems := es\<rparr>"
proof (cases "map_of (timers s) h")
  case None
  then have "fireTimer h s = s\<lparr>elems := elems s\<rparr>" by (simp add: fireTimer_def)
  then show ?thesis by blast
next
  case (Some cl)
  obtain c d where cl: "cl = (c, d)" by (cases cl)
  show ?thesis
  proof (cases "scrollByAxis c d s")
    case (Inl e)
    with Some cl have "fireTimer h s = s\<lparr>elems := elems s\<rparr>" by (simp add: fireTimer_def)
    then show ?thesis by blast
  next
    case (Inr s')
    with Some cl have "fireTimer h s = s'" by (simp add: fireTimer_def)
    with scrollByAxis_elems_only [OF Inr] show ?thesis by simp
  qed
qed

lemma session_inv_elems [simp]: "session_inv (s\<lparr>elems := es\<rparr>) = session_inv s"
  by (simp add: session_inv_def split: option.splits)

lemma session_inv_width [simp]: "session_inv (s\<lparr>viewportWidth := w\<rparr>) = session_inv s"
  by (simp add: session_inv_def split: option.splits)

lemma session_inv_listeners [simp]: "session_inv (s\<lparr>listeners := ls\<rparr>) = session_inv s"
  by (simp add: session_inv_def split: option.splits)

lemma session_inv_fire: "session_inv s \<Longrightarrow> session_inv (fireTimer h s)"
proof -
  assume inv: "session_inv s"
  obtain es where "fireTimer h s = s\<lparr>elems := es\<rparr>" using fireTimer_elems_only by blast
  with inv show ?thesis by simp
qed

lemma session_inv_runHandler: "session_inv s \<Longrightarrow> session_inv (runHandler h s)"
  by (cases h) (simp_all add: runHandler_def session_inv_start session_inv_stop)

lemma session_inv_handlers: "session_inv s \<Longrightarrow> session_inv (fold runHandler hs s)"
  by (induction hs arbitrary: s) (simp_all add: session_inv_runHandler)

lemma session_inv_dispatch: "session_inv s \<Longrightarrow> session_inv (dispatchEvent t n s)"
  by (simp add: dispatchEvent_def session_inv_handlers)

lemma session_inv_step: "session_inv s \<Longrightarrow> session_inv (step e s)"
  by (cases e)
     (simp_all add: session_inv_start session_inv_stop session_inv_dispatch session_inv_fire)

lemma session_inv_run: "session_inv s \<Longrightarrow> session_inv (run evs s)"
  unfolding run_def by (induction evs arbitrary: s) (simp_all add: session_inv_step)

lemma addEventListener_listeners_only:
  "addEventListener t n h s =
     s\<lparr>listeners := (if h = HStop \<and> (t, n, h) \<in> set (listeners s) then listeners s
                      else listeners s @ [(t, n, h)])\<rparr>"
  by (auto simp: addEventListener_def)

lemma session_inv_addEventListener [simp]:
  "session_inv (addEventListener t n h s) = session_inv s"
proof -
  show ?thesis
    by (subst addEventListener_listeners_only) (rule session_inv_listeners)
qed

lemma session_inv_wireArrow [simp]: "session_inv (wireArrow a pl d s) = session_inv s"
  by (simp add: wireArrow_def)

lemma session_inv_setup [simp]:
  "session_inv (setupArrowScrolling ac pl la ra s) = session_inv s"
  by (simp add: setupArrowScrolling_def Let_def split: option.splits)

lemma session_inv_reachable:
  "session_inv (run evs (setupArrowScrolling ac pl la ra (initial w es n)))"
  by (simp add: session_inv_run session_inv_initial)

text \<open>
  C1. In every state the page reaches from its initial state by any sequence of events
  (direct calls of start and stop, events sent to listeners, timer callbacks, resizes), at
  most one timer runs. After \<open>startContinuousScroll\<close> returns, exactly one timer runs:
  the new one, whose handle the session slot holds, and the timer of the session before
  it is gone. Two starts in succession followed by one stop leave no timer.
\<close>

theorem one_session:
  "let s = run evs (setupArrowScrolling ac pl la ra (initial w es n));
       s' = startContinuousScroll c d s
   in length (timers s) \<le> 1 \<and>
      length (timers s') = 1 \<and>
      (\<exists>h. scrollController s' = Some h \<and> h \<noteq> 0 \<and> timers s' = [(h, (c, d))] \<and>
           h \<notin> fst ` set (timers s)) \<and>
      timers (stopContinuousScroll (startContinuousScroll c2 d2 s')) = [] \<and>
      scrollController (stopContinuousScroll (startContinuousScroll c2 d2 s')) = None"
proof -
  define s where "s = run evs (setupArrowScrolling ac pl la ra (initial w es n))"
  have inv: "session_inv s"
    unfolding s_def by (rule session_inv_reachable)
  have inv1: "session_inv (startContinuousScroll c d s)"
    using inv by (rule session_inv_start)
  have inv2: "session_inv (startContinuousScroll c2 d2 (startContinuousScroll c d s))"
    using inv1 by (rule session_inv_start)
  have le: "length (timers s) \<le> 1 \<and> Suc (lastTimer s) \<notin> fst ` set (timers s)"
    using inv by (cases "timers s") (auto simp: session_inv_def split: option.splits)
  show ?thesis
    unfolding Let_def s_def [symmetric]
    using le by (simp add: stop_result [OF inv2]) (simp add: start_result [OF inv])
qed

theorem one_session_witness:
  "length (timers (startContinuousScroll (Some 7) 1 (initial 500 unscrolled 0))) = 1 \<and>
   timers (stopContinuousScroll (startContinuousScroll (Some 7) (- 1)
     (startContinuousScroll (Some 7) 1 (initial 500 unscrolled 0)))) = []"
  using one_session [of "[]" None None None None 500 unscrolled 0 "Some 7" 1 "Some 7" "- 1"]
  by (simp add: run_def setupArrowScrolling_def Let_def)

lemma listeners_start [simp]: "listeners (startContinuousScroll c d s) = listeners s"
  by (simp add: startContinuousScroll_def setInterval_def clearInterval_def Let_def
      split: option.splits)

lemma listeners_stop [simp]: "listeners (stopContinuousScroll s) = listeners s"
  by (simp add: stopContinuousScroll_def clearInterval_def split: option.splits)

lemma listeners_fire [simp]: "listeners (fireTimer h s) = listeners s"
proof -
  obtain es where "fireTimer h s = s\<lparr>elems := es\<rparr>" using fireTimer_elems_only by blast
  then show ?thesis by simp
qed

lemma listeners_runHandler [simp]: "listeners (runHandler h s) = listeners s"
  by (cases h) (simp_all add: runHandler_def)

lemma listeners_handlers [simp]: "listeners (fold runHandler hs s) = listeners s"
  by (induction hs arbitrary: s) simp_all

lemma listeners_dispatch [simp]: "listeners (dispatchEvent t n s) = listeners s"
  by (simp add: dispatchEvent_def)

lemma listeners_step [simp]: "listeners (step e s) = listeners s"
  by (cases e) simp_all

lemma listeners_run [simp]: "listeners (run evs s) = listeners s"
  unfolding run_def by (induction evs arbitrary: s) simp_all

lemma set_listeners_add:
  "set (listeners (addEventListener t n h s)) = insert (t, n, h) (set (listeners s))"
  by (auto simp: addEventListener_def)

lemma handlers_all_stop:
  assumes "hs \<noteq> []" and "set hs \<subseteq> {HStop}" and "session_inv s"
  shows "fold runHandler hs s = s\<lparr>timers := [], scrollController := None\<rparr>"
  using assms
proof (induction hs arbitrary: s)
  case Nil
  then show ?case by simp
next
  case (Cons h hs)
  have h: "h = HStop" using Cons.prems by simp
  have r: "runHandler h s = s\<lparr>timers := [], scrollController := None\<rparr>"
    using h Cons.prems by (simp add: runHandler_def stop_result)
  show ?case
  proof (cases "hs = []")
    case True
    with r show ?thesis by simp
  next
    case False
    have i: "session_inv (s\<lparr>timers := [], scrollController := None\<rparr>)"
      by (simp add: session_inv_def)
    have "set hs \<subseteq> {HStop}" using Cons.prems by simp
    from Cons.IH [OF False this i] r show ?thesis by simp
  qed
qed

lemma dispatch_stop:
  assumes inv: "session_inv s"
    and mem: "(t, n, HStop) \<in> set (listeners s)"
    and nost: "\<And>pl d. (t, n, HStart pl d) \<notin> set (listeners s)"
  shows "dispatchEvent t n s = s\<lparr>timers := [], scrollController := None\<rparr>"
proof -
  define hs where
    "hs = map (\<lambda>(t', n', h). h) (filter (\<lambda>(t', n', h). t' = t \<and> n' = n) (listeners s))"
  have "HStop \<in> set hs" unfolding hs_def using mem by force
  then have ne: "hs \<noteq> []" by (cases hs) simp_all
  have "h = HStop" if "h \<in> set hs" for h
  proof -
    from that have "(t, n, h) \<in> set (listeners s)" unfolding hs_def by auto
    with nost show "h = HStop" by (cases h) auto
  qed
  then have "set hs \<subseteq> {HStop}" by blast
  from handlers_all_stop [OF ne this inv] show ?thesis
    unfolding hs_def by (simp add: dispatchEvent_def)
qed

lemma fire_idle: "timers s = [] \<Longrightarrow> fireTimer h s = s"
  by (simp add: fireTimer_def)

lemma run_fire_idle: "timers s = [] \<Longrightarrow> run (map Fire hs) s = s"
  unfolding run_def by (induction hs) (simp_all add: fire_idle)

lemma wire_unfold:
  "wireArrow a pl d s =
     addEventListener (Element a) ''blur'' HStop
       (addEventListener (Element a) ''pointercancel'' HStop
       (addEventListener (Element a) ''mouseleave'' HStop
       (addEventListener (Element a) ''mouseup'' HStop
       (addEventListener (Element a) ''pointerup'' HStop
       (addEventListener (Element a) ''mousedown'' (HStart pl d)
       (addEventListener (Element a) ''pointerdown'' (HStart pl d) s))))))"
  by (simp add: wireArrow_def)

lemma set_listeners_wire:
  "set (listeners (wireArrow a pl d s)) = set (listeners s) \<union> arrowListeners (Some a) pl d"
  unfolding wire_unfold set_listeners_add arrowListeners_def option.case
  by (simp only: Un_insert_right Un_empty_right insert_commute)

lemma set_listeners_setup:
  "set (listeners (setupArrowScrolling (Some ac) (Some pl) la ra s)) =
     set (listeners s) \<union> arrowListeners la pl (- 1) \<union> arrowListeners ra pl 1 \<union>
     {(Window, ''blur'', HStop), (Window, ''resize'', HStop)}"
proof -
  have l: "set (listeners (case la of None \<Rightarrow> s | Some a \<Rightarrow> wireArrow a pl (- 1) s)) =
      set (listeners s) \<union> arrowListeners la pl (- 1)" for s
  proof (cases la)
    case None
    then show ?thesis by (simp add: arrowListeners_def)
  next
    case (Some a)
    then show ?thesis by (simp only: option.case set_listeners_wire)
  qed
  have r: "set (listeners (case ra of None \<Rightarrow> s | Some a \<Rightarrow> wireArrow a pl 1 s)) =
      set (listeners s) \<union> arrowListeners ra pl 1" for s
  proof (cases ra)
    case None
    then show ?thesis by (simp add: arrowListeners_def)
  next
    case (Some a)
    then show ?thesis by (simp only: option.case set_listeners_wire)
  qed
  show ?thesis
    unfolding setupArrowScrolling_def Let_def option.case set_listeners_add l r
    by (simp only: Un_insert_right Un_empty_right insert_commute)
qed

lemma arrow_starts:
  "(t, n, HStart p d') \<in> arrowListeners a pl d \<Longrightarrow> n = ''pointerdown'' \<or> n = ''mousedown''"
  by (cases a) (simp_all add: arrowListeners_def, blast)

lemma arrow_stops:
  "e \<in> set (arrowStopEvents a) \<Longrightarrow>
   \<exists>t n. e = Dispatch t n \<and> n \<noteq> ''pointerdown'' \<and> n \<noteq> ''mousedown'' \<and>
     (t, n, HStop) \<in> arrowListeners a pl d"
  by (cases a) (simp_all add: arrowStopEvents_def arrowListeners_def, blast)

lemma wired_starts:
  "(t, n, HStart p d) \<in> set (listeners (setupArrowScrolling (Some ac) (Some pl) la ra (initial w es k))) \<Longrightarrow>
   n = ''pointerdown'' \<or> n = ''mousedown''"
  unfolding set_listeners_setup
  using arrow_starts by (simp add: initial_def) blast

lemma wired_stops:
  assumes "e \<in> set (stopTriggers la ra w')"
  shows "(\<exists>t n. e = Dispatch t n \<and> n \<noteq> ''pointerdown'' \<and> n \<noteq> ''mousedown'' \<and>
      (t, n, HStop) \<in> set (listeners (setupArrowScrolling (Some ac) (Some pl) la ra (initial w es k))))
   \<or> e = Resize w'"
proof -
  from assms consider "e \<in> set (arrowStopEvents la)" | "e \<in> set (arrowStopEvents ra)"
    | "e = Dispatch Window ''blur''" | "e = Resize w'"
    by (auto simp: stopTriggers_def)
  then show ?thesis
  proof cases
    case 1
    from arrow_stops [OF 1, of pl "- 1"] show ?thesis
      unfolding set_listeners_setup by blast
  next
    case 2
    from arrow_stops [OF 2, of pl 1] show ?thesis
      unfolding set_listeners_setup by blast
  next
    case 3
    then show ?thesis unfolding set_listeners_setup by simp
  next
    case 4
    then show ?thesis by simp
  qed
qed

lemma wired_resize:
  "(Window, ''resize'', HStop) \<in>
     set (listeners (setupArrowScrolling (Some ac) (Some pl) la ra (initial w es k)))"
  unfolding set_listeners_setup by simp

lemma stop_trigger_step:
  assumes e: "e \<in> set (stopTriggers la ra w')"
    and s: "s = run evs (setupArrowScrolling (Some ac) (Some pl) la ra (initial w es k))"
  shows "\<exists>v. step e s = s\<lparr>viewportWidth := v, timers := [], scrollController := None\<rparr>"
proof -
  have inv: "session_inv s" unfolding s by (rule session_inv_reachable)
  have ls: "listeners s = listeners (setupArrowScrolling (Some ac) (Some pl) la ra (initial w es k))"
    unfolding s by simp
  from wired_stops [OF e, of ac pl w es k]
  show ?thesis
  proof
    assume "\<exists>t n. e = Dispatch t n \<and> n \<noteq> ''pointerdown'' \<and> n \<noteq> ''mousedown'' \<and>
      (t, n, HStop) \<in> set (listeners (setupArrowScrolling (Some ac) (Some pl) la ra (initial w es k)))"
    then obtain t n where d: "e = Dispatch t n" and n: "n \<noteq> ''pointerdown''" "n \<noteq> ''mousedown''"
      and mem: "(t, n, HStop) \<in> set (listeners s)" using ls by auto
    have nost: "\<And>p d. (t, n, HStart p d) \<notin> set (listeners s)"
      using wired_starts n ls by metis
    have "step e s = s\<lparr>timers := [], scrollController := None\<rparr>"
      using dispatch_stop [OF inv mem nost] d by simp
    then have "step e s = s\<lparr>viewportWidth := viewportWidth s, timers := [], scrollController := None\<rparr>"
      by simp
    then show ?thesis by blast
  next
    assume r: "e = Resize w'"
    let ?s = "s\<lparr>viewportWidth := w'\<rparr>"
    have inv': "session_inv ?s" using inv by simp
    have mem: "(Window, ''resize'', HStop) \<in> set (listeners ?s)"
      using wired_resize ls by simp
    have nost: "\<And>p d. (Window, ''resize'', HStart p d) \<notin> set (listeners ?s)"
    proof
      fix p d assume "(Window, ''resize'', HStart p d) \<in> set (listeners ?s)"
      then have "(Window, ''resize'', HStart p d) \<in>
          set (listeners (setupArrowScrolling (Some ac) (Some pl) la ra (initial w es k)))"
        using ls by simp
      from wired_starts [OF this] show False by simp
    qed
    have "step e s = ?s\<lparr>timers := [], scrollController := None\<rparr>"
      using dispatch_stop [OF inv' mem nost] r by simp
    then show ?thesis by auto
  qed
qed

text \<open>
  C5. On a page whose arrows have been wired, every stop trigger (for example a resize of
  the window), in the turn of the event loop in which it is handled, leaves no running
  timer and an empty session slot and changes no scroll offset; after it, any number of
  timer callbacks, for any handles, leave the page as it is.
\<close>

theorem stop_trigger_cancels:
  "let s = run evs (setupArrowScrolling (Some ac) (Some pl) la ra (initial w es k))
   in \<forall>e \<in> set (stopTriggers la ra w').
        timers (step e s) = [] \<and> scrollController (step e s) = None \<and>
        elems (step e s) = elems s \<and>
        (\<forall>hs. run (map Fire hs) (step e s) = step e s \<and>
              elems (run (map Fire hs) (step e s)) = elems s)"
proof -
  define s where "s = run evs (setupArrowScrolling (Some ac) (Some pl) la ra (initial w es k))"
  have "timers (step e s) = [] \<and> scrollController (step e s) = None \<and>
        elems (step e s) = elems s \<and>
        (\<forall>hs. run (map Fire hs) (step e s) = step e s \<and>
              elems (run (map Fire hs) (step e s)) = elems s)"
    if e: "e \<in> set (stopTriggers la ra w')" for e
  proof -
    obtain v where v: "step e s = s\<lparr>viewportWidth := v, timers := [], scrollController := None\<rparr>"
      using stop_trigger_step [OF e s_def] by blast
    have t: "timers (step e s) = []" using v by simp
    show ?thesis
      using v by (simp add: run_fire_idle)
  qed
  then show ?thesis
    unfolding Let_def s_def [symmetric] by blast
qed

theorem stop_trigger_cancels_witness:
  "Resize 800 \<in> set (stopTriggers (Some 1) (Some 2) 800) \<and>
   timers (run [Dispatch (Element 2) ''pointerdown'']
     (setupArrowScrolling (Some 0) (Some 7) (Some 1) (Some 2) (initial 500 unscrolled 0)))
     = [(1, (Some 7, 1))] \<and>
   timers (step (Resize 800) (run [Dispatch (Element 2) ''pointerdown'']
     (setupArrowScrolling (Some 0) (Some 7) (Some 1) (Some 2) (initial 500 unscrolled 0))))
     = [] \<and>
   elems (run (map Fire [1, 1, 1]) (step (Resize 800) (run [Dispatch (Element 2) ''pointerdown'']
     (setupArrowScrolling (Some 0) (Some 7) (Some 1) (Some 2) (initial 500 unscrolled 0)))))
     = elems (run [Dispatch (Element 2) ''pointerdown'']
     (setupArrowScrolling (Some 0) (Some 7) (Some 1) (Some 2) (initial 500 unscrolled 0)))"
proof -
  have m: "Resize 800 \<in> set (stopTriggers (Some 1) (Some 2) 800)"
    by (simp add: stopTriggers_def)
  have a: "timers (run [Dispatch (Element 2) ''pointerdown'']
     (setupArrowScrolling (Some 0) (Some 7) (Some 1) (Some 2) (initial 500 unscrolled 0)))
     = [(1, (Some 7, 1))]"
    by code_simp
  from stop_trigger_cancels [of "[Dispatch (Element 2) ''pointerdown'']" 0 7 "Some 1" "Some 2"
      500 unscrolled 0 800] m a
  show ?thesis
    unfolding Let_def by blast
qed

lemma fire_null:
  assumes "\<And>k c d. (k, c, d) \<in> set (timers s) \<Longrightarrow> c = None"
  shows "fireTimer h s = s"
proof (cases "map_of (timers s) h")
  case None
  then show ?thesis by (simp add: fireTimer_def)
next
  case (Some cl)
  obtain c d where cl: "cl = (c, d)" by (cases cl)
  from Some cl have "(h, c, d) \<in> set (timers s)" by (simp add: map_of_SomeD)
  then have "c = None" by (rule assms)
  with Some cl show ?thesis by (simp add: fireTimer_def scrollByAxis_def)
qed

lemma run_fire_null:
  assumes "\<And>k c d. (k, c, d) \<in> set (timers s) \<Longrightarrow> c = None"
  shows "run (map Fire hs) s = s"
  unfolding run_def using assms by (induction hs) (simp_all add: fire_null)

text \<open>
  C3, as amended. Called with no container, \<open>startContinuousScroll\<close> raises no error and
  changes no scroll offset, and no later callback of the timer it creates changes the
  page; it does replace the session: one new timer runs and the session slot holds its
  handle. When the container is missing, \<open>setupArrowScrolling\<close> registers no listener,
  so no event of the page makes that call.
\<close>

theorem start_null_container:
  "let s = run evs (setupArrowScrolling ac pl la ra (initial w es k));
       s' = startContinuousScroll None d s
   in elems s' = elems s \<and> viewportWidth s' = viewportWidth s \<and>
      listeners s' = listeners s \<and>
      timers s' = [(Suc (lastTimer s), (None, d))] \<and>
      scrollController s' = Some (Suc (lastTimer s)) \<and>
      Suc (lastTimer s) \<notin> fst ` set (timers s) \<and>
      (\<forall>hs. run (map Fire hs) s' = s') \<and>
      setupArrowScrolling ac None la ra s = s"
proof -
  define s where "s = run evs (setupArrowScrolling ac pl la ra (initial w es k))"
  have inv: "session_inv s"
    unfolding s_def by (rule session_inv_reachable)
  have fresh: "Suc (lastTimer s) \<notin> fst ` set (timers s)"
    using inv by (cases "timers s") (auto simp: session_inv_def split: option.splits)
  have r: "startContinuousScroll None d s =
     s\<lparr>timers := [(Suc (lastTimer s), (None, d))], lastTimer := Suc (lastTimer s),
       scrollController := Some (Suc (lastTimer s))\<rparr>"
    using inv by (rule start_result)
  have f: "run (map Fire hs) (startContinuousScroll None d s) = startContinuousScroll None d s"
    for hs
    by (rule run_fire_null) (simp add: r)
  have n: "setupArrowScrolling ac None la ra s = s"
    by (simp add: setupArrowScrolling_def split: option.splits)
  show ?thesis
    unfolding Let_def s_def [symmetric]
    using fresh f n by (simp add: r)
qed

theorem start_null_container_witness:
  "timers (startContinuousScroll None 1
      (run [CallStart (Some 7) 1] (initial 500 unscrolled 0))) = [(2, (None, 1))] \<and>
   elems (startContinuousScroll None 1
      (run [CallStart (Some 7) 1] (initial 500 unscrolled 0))) = unscrolled"
  using start_null_container [of "[CallStart (Some 7) 1]" None None None None 500 unscrolled 0 1]
  by (simp add: run_def setupArrowScrolling_def Let_def initial_def startContinuousScroll_def
      setInterval_def)

text \<open>
  C3 as stated fails: called with no container on an idle page, \<open>startContinuousScroll\<close>
  changes the page; it creates a timer and fills the session slot.
\<close>

theorem start_null_container_counterexample:
  "startContinuousScroll None 1 (initial 500 unscrolled 0) \<noteq> initial 500 unscrolled 0 \<and>
   timers (initial 500 unscrolled 0) = [] \<and>
   timers (startContinuousScroll None 1 (initial 500 unscrolled 0)) = [(1, (None, 1))] \<and>
   scrollController (initial 500 unscrolled 0) = None \<and>
   scrollController (startContinuousScroll None 1 (initial 500 unscrolled 0)) = Some 1"
  by (simp add: initial_def startContinuousScroll_def setInterval_def)

text \<open>
  The ticks of the property above are the callbacks of a session's timer: N calls of
  \<open>scrollByAxis\<close> with the captured container and direction are N firings of the timer
  that \<open>startContinuousScroll\<close> has created.
\<close>

lemma scrollByAxis_total:
  "\<exists>es. scrollByAxis (Some c) d s = Inr (s\<lparr>elems := es\<rparr>)"
proof (cases "getAxis s = ''x''")
  case True
  then have "scrollByAxis (Some c) d s =
      addScrollLeft (Some c)
        (if d > 0 then toNumber (\<bar>d\<bar> * 20) else numNeg (toNumber (\<bar>d\<bar> * 20))) s"
    by (simp add: scrollByAxis_def Let_def)
  then show ?thesis by (simp only: addScrollLeft.simps) blast
next
  case False
  then have "scrollByAxis (Some c) d s =
      addScrollTop (Some c)
        (if d > 0 then toNumber (\<bar>d\<bar> * 20) else numNeg (toNumber (\<bar>d\<bar> * 20))) s"
    by (simp add: scrollByAxis_def Let_def)
  then show ?thesis by (simp only: addScrollTop.simps) blast
qed

lemma fired_ticks:
  assumes "map_of (timers s) h = Some (Some c, d)"
  shows "ticks N (Some c) d s = Inr (run (replicate N (Fire h)) s)"
  using assms
proof (induction N arbitrary: s)
  case 0
  then show ?case by (simp add: run_def)
next
  case (Suc N)
  obtain es where es: "scrollByAxis (Some c) d s = Inr (s\<lparr>elems := es\<rparr>)"
    using scrollByAxis_total by blast
  have f: "fireTimer h s = s\<lparr>elems := es\<rparr>"
    using Suc.prems es by (simp add: fireTimer_def)
  have t: "map_of (timers (s\<lparr>elems := es\<rparr>)) h = Some (Some c, d)"
    using Suc.prems by simp
  have "ticks (Suc N) (Some c) d s = ticks N (Some c) d (s\<lparr>elems := es\<rparr>)"
    using es by simp
  also have "\<dots> = Inr (run (replicate N (Fire h)) (s\<lparr>elems := es\<rparr>))"
    by (rule Suc.IH [OF t])
  also have "\<dots> = Inr (run (replicate (Suc N) (Fire h)) s)"
    using f by (simp add: run_def)
  finally show ?case .
qed

lemma session_ticks:
  assumes "session_inv s"
  shows "ticks N (Some c) d (startContinuousScroll (Some c) d s) =
     Inr (run (replicate N (Fire (Suc (lastTimer s)))) (startContinuousScroll (Some c) d s))"
  by (rule fired_ticks) (simp add: start_result [OF assms])

section \<open>Properties of data normalization\<close>

lemma normalizeProject_object:
  "normalizeProject (JObj kvs) =
     Inr \<lparr>p_id = js_or (propOf kvs (lit ''project_id'')) (JStr (lit ''unknown'')),
          p_name = js_or (propOf kvs (lit ''project_name'')) (JStr (lit ''Untitled Project'')),
          p_short = js_or (propOf kvs (lit ''short_description''))
                      (JStr (lit ''No description available.'')),
          p_long = js_or (propOf kvs (lit ''long_description''))
                      (JStr (lit ''Detailed information coming soon.'')),
          p_url = js_or (propOf kvs (lit ''url'')) (JStr (lit ''#'')),
          p_cardImage = js_or (propOf kvs (lit ''card_image''))
                      (JStr (lit ''/images/card_placeholder_bg.webp'')),
          p_spotlightImage = js_or (propOf kvs (lit ''spotlight_image''))
                      (JStr (lit ''/images/spotlight_placeholder_bg.webp''))\<rparr>"
  by (simp add: normalizeProject_def bindE_def propOf_def PLACEHOLDERS_cardImage_def
      PLACEHOLDERS_spotlightImage_def)

lemma js_or_prop:
  "js_or (propOf kvs k) d =
     (case map_of kvs k of None \<Rightarrow> d | Some v \<Rightarrow> if truthy v then v else d)"
  by (simp add: js_or_def propOf_def split: option.splits)

text \<open>
  C8, as amended. For every raw project record, \<open>normalizeProject\<close> returns a record
  (it raises no error) in which each of the seven fields is the source value when the
  property is present and truthy, and the default of that field when the property is
  absent or present with a falsy value.
\<close>

theorem normalizeProject_fields:
  "\<exists>p. normalizeProject (JObj kvs) = Inr p \<and>
     (\<forall>(k, sel, d) \<in> set project_fields.
        sel p = (case map_of kvs k of None \<Rightarrow> d | Some v \<Rightarrow> if truthy v then v else d))"
  by (simp add: normalizeProject_object project_fields_def js_or_prop)

lemma falsy_default:
  "map_of kvs k = Some v \<Longrightarrow> \<not> truthy v \<Longrightarrow> js_or (propOf kvs k) d = d"
  by (simp add: js_or_def propOf_def)

text \<open>
  C10. Whenever a property of the raw record is present with a falsy value, the field
  taken from it is the default. An empty \<open>project_name\<close> gives the name
  \<open>Untitled Project\<close>, and an empty \<open>card_image\<close> gives the placeholder image path.
\<close>

theorem normalizeProject_falsy:
  "(\<forall>(k, sel, d) \<in> set project_fields. \<forall>v. map_of kvs k = Some v \<and> \<not> truthy v \<longrightarrow>
      (\<exists>p. normalizeProject (JObj kvs) = Inr p \<and> sel p = d)) \<and>
   (map_of kvs (lit ''project_name'') = Some (JStr []) \<longrightarrow>
      (\<exists>p. normalizeProject (JObj kvs) = Inr p \<and> p_name p = JStr (lit ''Untitled Project''))) \<and>
   (map_of kvs (lit ''card_image'') = Some (JStr []) \<longrightarrow>
      (\<exists>p. normalizeProject (JObj kvs) = Inr p \<and>
           p_cardImage p = JStr (lit ''/images/card_placeholder_bg.webp'')))"
  by (auto simp: normalizeProject_object project_fields_def falsy_default)

theorem normalizeProject_falsy_witness:
  "map_of [(lit ''project_name'', JStr []), (lit ''card_image'', JStr [])] (lit ''project_name'')
     = Some (JStr []) \<and>
   map_of [(lit ''project_name'', JStr []), (lit ''card_image'', JStr [])] (lit ''card_image'')
     = Some (JStr []) \<and>
   (\<exists>p. normalizeProject (JObj [(lit ''project_name'', JStr []), (lit ''card_image'', JStr [])])
          = Inr p \<and> p_name p = JStr (lit ''Untitled Project'')) \<and>
   (\<exists>p. normalizeProject (JObj [(lit ''project_name'', JStr []), (lit ''card_image'', JStr [])])
          = Inr p \<and> p_cardImage p = JStr (lit ''/images/card_placeholder_bg.webp''))"
proof -
  have a: "map_of [(lit ''project_name'', JStr []), (lit ''card_image'', JStr [])]
      (lit ''project_name'') = Some (JStr [])"
    by simp
  have b: "map_of [(lit ''project_name'', JStr []), (lit ''card_image'', JStr [])]
      (lit ''card_image'') = Some (JStr [])"
    by (simp add: lit_def)
  from normalizeProject_falsy
    [of "[(lit ''project_name'', JStr []), (lit ''card_image'', JStr [])]"] a b
  show ?thesis by blast
qed

theorem normalizeProject_fields_witness:
  "\<exists>p. normalizeProject (JObj [(lit ''project_id'', JStr (lit ''p1'')),
                                 (lit ''project_name'', JNull)]) = Inr p \<and>
       p_id p = JStr (lit ''p1'') \<and> p_name p = JStr (lit ''Untitled Project'') \<and>
       p_url p = JStr (lit ''#'')"
  using normalizeProject_fields
    [of "[(lit ''project_id'', JStr (lit ''p1'')), (lit ''project_name'', JNull)]"]
  by (simp add: project_fields_def lit_def) blast

text \<open>
  C8 as stated fails: a record whose \<open>project_name\<close> is present and is the empty string
  is given the name \<open>Untitled Project\<close>, not its source value.
\<close>

theorem normalizeProject_fields_counterexample:
  "map_of [(lit ''project_name'', JStr [])] (lit ''project_name'') = Some (JStr []) \<and>
   map_sum id p_name (normalizeProject (JObj [(lit ''project_name'', JStr [])]))
     = Inr (JStr (lit ''Untitled Project'')) \<and>
   JStr (lit ''Untitled Project'') \<noteq> JStr []"
  by (simp add: normalizeProject_object js_or_def propOf_def lit_def)

section \<open>Properties of form validation\<close>

lemma ws_not_inClass: "isWhiteSpace c \<Longrightarrow> \<not> inClass c"
  unfolding isWhiteSpace_def inClass_def
  by (auto simp: word_le_nat_alt word_less_nat_alt)

lemma space_ws: "isWhiteSpace 0x20"
  by (simp add: isWhiteSpace_def)

text \<open>
  C9. \<open>validateMessage\<close> returns \<open>isValid = false\<close> for every string with a code unit
  outside \<open>[a-zA-Z0-9@._-]\<close>, whatever its length. White space is outside that set, so
  no message with white space in it, in particular with an ordinary space between words,
  is valid.
\<close>

theorem validateMessage_rejects_outside_class:
  "((\<exists>c \<in> set v. \<not> inClass c) \<longrightarrow> \<not> isValid (validateMessage (Some v))) \<and>
   ((\<exists>c \<in> set v. isWhiteSpace c) \<longrightarrow> \<not> isValid (validateMessage (Some v))) \<and>
   (0x20 \<in> set v \<longrightarrow> \<not> isValid (validateMessage (Some v)))"
proof -
  have a: "\<not> isValid (validateMessage (Some v))" if "\<exists>c \<in> set v. \<not> inClass c"
    using that
    by (simp add: validateMessage_def REGEX_illegalChars_test_def list_ex_iff Let_def)
  have b: "\<not> isValid (validateMessage (Some v))" if "\<exists>c \<in> set v. isWhiteSpace c"
    using that ws_not_inClass a by blast
  have c: "\<not> isValid (validateMessage (Some v))" if "0x20 \<in> set v"
    using that space_ws b by blast
  from a b c show ?thesis by blast
qed

theorem validateMessage_rejects_outside_class_witness:
  "(\<exists>c \<in> set (lit ''hello world''). \<not> inClass c) \<and>
   trim (lit ''hello world'') \<noteq> [] \<and>
   length (lit ''hello world'') \<le> MESSAGE_LIMIT \<and>
   \<not> isValid (validateMessage (Some (lit ''hello world'')))"
proof -
  have h: "\<exists>c \<in> set (lit ''hello world''). \<not> inClass c"
    by (simp add: lit_def inClass_def)
  have t: "trim (lit ''hello world'') \<noteq> []"
    by (simp add: lit_def trim_def isWhiteSpace_def)
  have l: "length (lit ''hello world'') \<le> MESSAGE_LIMIT"
    by (simp add: lit_def MESSAGE_LIMIT_def)
  from validateMessage_rejects_outside_class [of "lit ''hello world''"] h t l
  show ?thesis by blast
qed

end
